theory Spec2Isabelle
  imports Complex_Main "HOL-Library.Multiset" "HOL-Library.Log_Nat"
begin

section \<open>Data model\<close>

text \<open>
  A cell of the one-row data frame of \<^verbatim>\<open>app.py\<close> is a Python string (the categorical
  columns) or a Python integer (the numeric and ordinal columns).
\<close>

datatype val = Str string | Num int

text \<open>
  The data frame \<^verbatim>\<open>input_df\<close> has exactly one row, so it is the list of its columns in
  their order, each with its cell. A Python dict literal is an association list in the
  order it is written.
\<close>

type_synonym frame = "(string \<times> val) list"

datatype error = KeyError string | ValueError string

text \<open>The six widgets of the input form (\<^verbatim>\<open>app.py\<close>, lines 44 to 51).\<close>

record user_input =
  school :: string
  sex :: string
  age :: int
  studytime :: int
  failures :: int
  absences :: int

text \<open>
  What the widgets can return: the two select boxes offer two codes each, the sliders
  are bounded.
\<close>

definition valid_input :: "user_input \<Rightarrow> bool" where
  "valid_input u =
     (school u \<in> set [''GP'', ''MS''] \<and> sex u \<in> set [''F'', ''M''] \<and>
      15 \<le> age u \<and> age u \<le> 22 \<and>
      1 \<le> studytime u \<and> studytime u \<le> 4 \<and>
      0 \<le> failures u \<and> failures u \<le> 4 \<and>
      0 \<le> absences u \<and> absences u \<le> 50)"

definition user_fields :: "string list" where
  "user_fields = [''school'', ''sex'', ''age'', ''studytime'', ''failures'', ''absences'']"

text \<open>\<^verbatim>\<open>required_cols\<close> (\<^verbatim>\<open>app.py\<close>, lines 56 to 63).\<close>

definition required_cols :: "string list" where
  "required_cols =
     [''school'', ''sex'', ''age'', ''address'', ''famsize'', ''Pstatus'',
      ''Medu'', ''Fedu'', ''Mjob'', ''Fjob'', ''reason'', ''guardian'',
      ''traveltime'', ''studytime'', ''failures'', ''schoolsup'',
      ''famsup'', ''paid'', ''activities'', ''nursery'', ''higher'',
      ''internet'', ''romantic'', ''famrel'', ''freetime'', ''goout'',
      ''Dalc'', ''Walc'', ''health'', ''absences'', ''G1'', ''G2'', ''G3'']"

text \<open>\<^verbatim>\<open>defaults\<close> (\<^verbatim>\<open>app.py\<close>, lines 65 to 93).\<close>

definition defaults :: "(string \<times> val) list" where
  "defaults =
     [(''address'', Str ''U''),
      (''famsize'', Str ''GT3''),
      (''Pstatus'', Str ''T''),
      (''Medu'', Num 2),
      (''Fedu'', Num 2),
      (''Mjob'', Str ''other''),
      (''Fjob'', Str ''other''),
      (''reason'', Str ''course''),
      (''guardian'', Str ''mother''),
      (''traveltime'', Num 1),
      (''schoolsup'', Str ''no''),
      (''famsup'', Str ''no''),
      (''paid'', Str ''no''),
      (''activities'', Str ''no''),
      (''nursery'', Str ''yes''),
      (''higher'', Str ''yes''),
      (''internet'', Str ''yes''),
      (''romantic'', Str ''no''),
      (''famrel'', Num 3),
      (''freetime'', Num 3),
      (''goout'', Num 3),
      (''Dalc'', Num 1),
      (''Walc'', Num 1),
      (''health'', Num 3),
      (''G1'', Num 10),
      (''G2'', Num 10),
      (''G3'', Num 10)]"

text \<open>\<^verbatim>\<open>categorical_cols\<close> (\<^verbatim>\<open>train_model.py\<close>, lines 17 to 21).\<close>

definition categorical_cols :: "string list" where
  "categorical_cols =
     [''school'', ''sex'', ''address'', ''famsize'', ''Pstatus'', ''Mjob'', ''Fjob'',
      ''reason'', ''guardian'', ''schoolsup'', ''famsup'', ''paid'', ''activities'',
      ''nursery'', ''higher'', ''internet'', ''romantic'']"

section \<open>Building the feature row\<close>

text \<open>
  \<^verbatim>\<open>pd.DataFrame([{...}])\<close> (lines 107 to 114): one row, the columns in the order of the
  dict literal.
\<close>

definition user_frame :: "user_input \<Rightarrow> frame" where
  "user_frame u =
     [(''school'', Str (school u)),
      (''sex'', Str (sex u)),
      (''age'', Num (age u)),
      (''studytime'', Num (studytime u)),
      (''failures'', Num (failures u)),
      (''absences'', Num (absences u))]"

text \<open>\<^verbatim>\<open>col in input_df\<close>: membership among the column labels.\<close>

definition has_column :: "string \<Rightarrow> frame \<Rightarrow> bool" where
  "has_column col df = (col \<in> set (map fst df))"

text \<open>
  \<^verbatim>\<open>input_df[col] = v\<close>: a column that exists keeps its place and takes the value, a
  new column goes to the end.
\<close>

fun setitem :: "string \<Rightarrow> val \<Rightarrow> frame \<Rightarrow> frame" where
  "setitem col v [] = [(col, v)]"
| "setitem col v ((k, w) # df) =
     (if k = col then (k, v) # df else (k, w) # setitem col v df)"

text \<open>\<^verbatim>\<open>d[col]\<close> on a dict: a missing key raises \<^verbatim>\<open>KeyError\<close>.\<close>

definition dict_getitem :: "(string \<times> val) list \<Rightarrow> string \<Rightarrow> error + val" where
  "dict_getitem d col = (case map_of d col of None \<Rightarrow> Inl (KeyError col) | Some v \<Rightarrow> Inr v)"

text \<open>
  The loop of lines 116 to 118:
  \<^verbatim>\<open>for col in required_cols: if col not in input_df: input_df[col] = defaults[col]\<close>.
\<close>

fun fill_defaults :: "string list \<Rightarrow> frame \<Rightarrow> error + frame" where
  "fill_defaults [] df = Inr df"
| "fill_defaults (col # cols) df =
     (if \<not> has_column col df then
        (case dict_getitem defaults col of
           Inl e \<Rightarrow> Inl e
         | Inr v \<Rightarrow> fill_defaults cols (setitem col v df))
      else fill_defaults cols df)"

text \<open>
  \<^verbatim>\<open>input_df[required_cols]\<close> (line 120): the listed columns in the listed order; a
  label that is not a column raises \<^verbatim>\<open>KeyError\<close>.
\<close>

fun select_columns :: "string list \<Rightarrow> frame \<Rightarrow> error + frame" where
  "select_columns [] df = Inr []"
| "select_columns (col # cols) df =
     (case map_of df col of
        None \<Rightarrow> Inl (KeyError col)
      | Some v \<Rightarrow>
          (case select_columns cols df of
             Inl e \<Rightarrow> Inl e
           | Inr row \<Rightarrow> Inr ((col, v) # row)))"

text \<open>Lines 116 to 120, from the frame the request starts with.\<close>

definition build_feature_row :: "frame \<Rightarrow> error + frame" where
  "build_feature_row df0 =
     (case fill_defaults required_cols df0 of
        Inl e \<Rightarrow> Inl e
      | Inr df \<Rightarrow> select_columns required_cols df)"

text \<open>Lines 107 to 120: the feature row of one request.\<close>

definition feature_row :: "user_input \<Rightarrow> error + frame" where
  "feature_row u = build_feature_row (user_frame u)"

section \<open>The trainer's feature columns\<close>

text \<open>
  \<^verbatim>\<open>train_model.py\<close>, lines 13 and 14, on the header of the dataset (the data file is
  not part of the sources, so its header is a parameter): \<^verbatim>\<open>df["G3"]\<close> raises
  \<^verbatim>\<open>KeyError\<close> without the target column, and \<^verbatim>\<open>df.drop(columns=["G3"])\<close> keeps
  every other column in its place.
\<close>

definition train_features :: "string list \<Rightarrow> error + string list" where
  "train_features header =
     (if ''G3'' \<in> set header then Inr (filter (\<lambda>c. c \<noteq> ''G3'') header)
      else Inl (KeyError ''G3''))"

text \<open>The cell the completed row holds in column \<open>c\<close>: the frame's own, else the default.\<close>

definition overlay :: "frame \<Rightarrow> string \<Rightarrow> val option" where
  "overlay df0 c = (if map_of df0 c \<noteq> None then map_of df0 c else map_of defaults c)"

section \<open>Prediction\<close>

text \<open>
  A Python float is a double: a finite value, given here as the rational it is, or one
  of the three special values. The integers \<^verbatim>\<open>0\<close> and \<^verbatim>\<open>20\<close> of line 124 compare with
  floats by value, so they are \<open>Finite 0\<close> and \<open>Finite 20\<close>.
\<close>

datatype pyfloat = Finite rat | NaN | PosInf | NegInf

text \<open>\<^verbatim>\<open>a < b\<close> on floats: every comparison with NaN is false.\<close>

fun py_lt :: "pyfloat \<Rightarrow> pyfloat \<Rightarrow> bool" where
  "py_lt NaN _ = False"
| "py_lt _ NaN = False"
| "py_lt (Finite a) (Finite b) = (a < b)"
| "py_lt (Finite a) PosInf = True"
| "py_lt (Finite a) NegInf = False"
| "py_lt PosInf _ = False"
| "py_lt NegInf NegInf = False"
| "py_lt NegInf _ = True"

text \<open>
  The builtins \<^verbatim>\<open>min(a, b)\<close> and \<^verbatim>\<open>max(a, b)\<close> keep the first argument unless the second
  is strictly smaller (strictly greater).
\<close>

definition py_min :: "pyfloat \<Rightarrow> pyfloat \<Rightarrow> pyfloat" where
  "py_min a b = (if py_lt b a then b else a)"

definition py_max :: "pyfloat \<Rightarrow> pyfloat \<Rightarrow> pyfloat" where
  "py_max a b = (if py_lt a b then b else a)"

text \<open>Rounding to the nearest integer, a tie to the even one.\<close>

definition round_half_even :: "rat \<Rightarrow> int" where
  "round_half_even q =
     (let n = \<lfloor>q\<rfloor>; f = q - of_int n
      in if f < 1 / 2 then n
         else if 1 / 2 < f then n + 1
         else if even n then n else n + 1)"

text \<open>
  The exponent of the binary representation of a rational other than zero: the largest
  \<open>e\<close> with \<open>2 ^ e \<le> \<bar>q\<bar>\<close>, from the bit lengths of numerator and denominator.
\<close>

definition binary_exponent :: "rat \<Rightarrow> int" where
  "binary_exponent q =
     (let (a, b) = quotient_of q; d = bitlen \<bar>a\<bar> - bitlen b
      in if power_int 2 d \<le> \<bar>q\<bar> then d else d - 1)"

text \<open>
  The double closest to a rational, a tie to the even mantissa: 53 bits of mantissa,
  the smallest exponent of a normal number is -1022 (below it the spacing stays
  \<open>2 ^ (- 1074)\<close>), the largest is 1023, and a value that rounds to \<open>2 ^ 1024\<close> or beyond
  is infinite.
\<close>

definition to_double :: "rat \<Rightarrow> pyfloat" where
  "to_double q =
     (if q = 0 then Finite 0
      else
        (let e = max (binary_exponent q) (- 1022);
             ulp = power_int 2 (e - 52);
             m = round_half_even (q / ulp)
         in if 1023 < e \<or> (e = 1023 \<and> 2 ^ 53 \<le> \<bar>m\<bar>)
            then (if 0 < q then PosInf else NegInf)
            else Finite (of_int m * ulp)))"

text \<open>
  \<^verbatim>\<open>round(x, 2)\<close> on a float: the special values are returned as they are; a finite value
  goes to the closest decimal with two digits after the point, a tie to the even digit,
  and the result is the double closest to that decimal.
\<close>

fun py_round2 :: "pyfloat \<Rightarrow> pyfloat" where
  "py_round2 (Finite q) = to_double (of_int (round_half_even (q * 100)) / 100)"
| "py_round2 x = x"

text \<open>
  The loaded pipeline (lines 19 to 23) is the work of the libraries: its two steps, the
  explainer built on the regressor, the names of the transformed features and the
  regressor's importances are fields of the artifact. A library call can raise.
  \<open>regressor_predict\<close> is \<^verbatim>\<open>regressor.predict(X)[0]\<close> and \<open>shap_values\<close> is
  \<^verbatim>\<open>explainer.shap_values(X)[0]\<close>, both on the one transformed row.
\<close>

record 'x artifact =
  transform :: "frame \<Rightarrow> error + 'x"
  regressor_predict :: "'x \<Rightarrow> error + pyfloat"
  shap_values :: "'x \<Rightarrow> error + rat list"
  feature_names_out :: "string list"
  feature_importances :: "rat list"

text \<open>Lines 122 to 124 on a feature row.\<close>

definition predict_row :: "'x artifact \<Rightarrow> frame \<Rightarrow> error + pyfloat" where
  "predict_row art input_df =
     (case transform art input_df of
        Inl e \<Rightarrow> Inl e
      | Inr X_trans \<Rightarrow>
          (case regressor_predict art X_trans of
             Inl e \<Rightarrow> Inl e
           | Inr prediction \<Rightarrow>
               Inr (py_max (Finite 0) (py_min (Finite 20) (py_round2 prediction)))))"

text \<open>Lines 107 to 124: from the six fields to the grade.\<close>

definition predict :: "'x artifact \<Rightarrow> user_input \<Rightarrow> error + pyfloat" where
  "predict art u =
     (case feature_row u of
        Inl e \<Rightarrow> Inl e
      | Inr input_df \<Rightarrow> predict_row art input_df)"

section \<open>Session state\<close>

text \<open>
  \<^verbatim>\<open>st.session_state\<close> is used with two keys only, \<^verbatim>\<open>"input_df"\<close> and \<^verbatim>\<open>"prediction"\<close>;
  a key that was never written is \<open>None\<close>.
\<close>

record session_state =
  ss_input_df :: "frame option"
  ss_prediction :: "pyfloat option"

definition empty_session :: session_state where
  "empty_session = \<lparr>ss_input_df = None, ss_prediction = None\<rparr>"

text \<open>
  Lines 105 to 127 in one run of the script: with the button pressed the row is built,
  predicted and both keys are written; an exception on the way ends the run before the
  two writes.
\<close>

definition run_prediction ::
  "'x artifact \<Rightarrow> bool \<Rightarrow> user_input \<Rightarrow> session_state \<Rightarrow> error + session_state" where
  "run_prediction art predict_btn u st =
     (if predict_btn then
        (case feature_row u of
           Inl e \<Rightarrow> Inl e
         | Inr input_df \<Rightarrow>
             (case predict_row art input_df of
                Inl e \<Rightarrow> Inl e
              | Inr prediction \<Rightarrow>
                  Inr (st\<lparr>ss_input_df := Some input_df, ss_prediction := Some prediction\<rparr>)))
      else Inr st)"

text \<open>
  The session state a run leaves behind (a run that raised leaves it as it was), and
  the state after a sequence of runs from a fresh session; a run is the state of the
  button together with the values of the six widgets.
\<close>

definition rerun :: "'x artifact \<Rightarrow> session_state \<Rightarrow> bool \<times> user_input \<Rightarrow> session_state" where
  "rerun art st ev =
     (case run_prediction art (fst ev) (snd ev) st of Inl e \<Rightarrow> st | Inr st' \<Rightarrow> st')"

definition session_after :: "'x artifact \<Rightarrow> (bool \<times> user_input) list \<Rightarrow> session_state" where
  "session_after art evs = foldl (rerun art) empty_session evs"

text \<open>
  The specification's words for the retained state: the feature row and the clamped
  prediction of the most recent prediction request that produced a prediction, if any.
\<close>

definition request_result :: "'x artifact \<Rightarrow> bool \<times> user_input \<Rightarrow> (frame \<times> pyfloat) option" where
  "request_result art ev =
     (if fst ev then
        (case feature_row (snd ev) of
           Inl e \<Rightarrow> None
         | Inr input_df \<Rightarrow>
             (case predict_row art input_df of Inl e \<Rightarrow> None | Inr p \<Rightarrow> Some (input_df, p)))
      else None)"

fun most_recent :: "'x artifact \<Rightarrow> (bool \<times> user_input) list \<Rightarrow> (frame \<times> pyfloat) option" where
  "most_recent art [] = None"
| "most_recent art (ev # evs) =
     (case most_recent art evs of
        Some r \<Rightarrow> Some r
      | None \<Rightarrow> request_result art ev)"

definition retained :: "(frame \<times> pyfloat) option \<Rightarrow> session_state" where
  "retained r =
     (case r of
        None \<Rightarrow> empty_session
      | Some (input_df, p) \<Rightarrow> \<lparr>ss_input_df = Some input_df, ss_prediction = Some p\<rparr>)"

section \<open>The explanation views\<close>

text \<open>
  A row of \<^verbatim>\<open>shap_df\<close> after line 154: the feature name, its signed SHAP value and the
  added column \<^verbatim>\<open>Impact\<close>, the absolute value.
\<close>

record shap_row =
  Feature :: string
  SHAP_Value :: rat
  Impact :: rat

text \<open>
  Lines 149 to 154. \<^verbatim>\<open>pd.DataFrame\<close> of two columns of different lengths raises
  \<^verbatim>\<open>ValueError\<close>.
\<close>

definition shap_df :: "string list \<Rightarrow> rat list \<Rightarrow> error + shap_row list" where
  "shap_df feature_names shap_values0 =
     (if length feature_names = length shap_values0 then
        Inr (map (\<lambda>(f, v). \<lparr>Feature = f, SHAP_Value = v, Impact = \<bar>v\<bar>\<rparr>)
               (zip feature_names shap_values0))
      else Inl (ValueError ''All arrays must be of the same length''))"

text \<open>
  \<^verbatim>\<open>sort_values(key, ascending=False)\<close>: the rows by descending key. The library's default
  sorting algorithm does not fix the order of rows with equal keys; the model keeps
  them in their original order.
\<close>

definition sort_values_desc :: "('a \<Rightarrow> rat) \<Rightarrow> 'a list \<Rightarrow> 'a list" where
  "sort_values_desc key rows = rev (sort_key key (rev rows))"

text \<open>Lines 155 to 157.\<close>

definition top_shap :: "string list \<Rightarrow> rat list \<Rightarrow> error + shap_row list" where
  "top_shap feature_names shap_values0 =
     (case shap_df feature_names shap_values0 of
        Inl e \<Rightarrow> Inl e
      | Inr df \<Rightarrow> Inr (take 10 (sort_values_desc Impact df)))"

text \<open>What the bar chart of lines 160 to 165 draws: name and signed value of each row.\<close>

definition bars :: "shap_row list \<Rightarrow> (string \<times> rat) list" where
  "bars rows = map (\<lambda>r. (Feature r, SHAP_Value r)) rows"

text \<open>
  Lines 145 to 165 on a feature row: the row is transformed again, the explainer gives
  one signed value per transformed feature, and the bars of the ten rows of largest
  impact are drawn.
\<close>

definition explain_local :: "'x artifact \<Rightarrow> frame \<Rightarrow> error + (string \<times> rat) list" where
  "explain_local art input_df =
     (case transform art input_df of
        Inl e \<Rightarrow> Inl e
      | Inr X_trans \<Rightarrow>
          (case shap_values art X_trans of
             Inl e \<Rightarrow> Inl e
           | Inr sv \<Rightarrow>
               (case top_shap (feature_names_out art) sv of
                  Inl e \<Rightarrow> Inl e
                | Inr rows \<Rightarrow> Inr (bars rows))))"

text \<open>
  The first tab (lines 134 and 142 to 165): shown once \<^verbatim>\<open>"prediction"\<close> is in the session
  state; it reads \<^verbatim>\<open>st.session_state["input_df"]\<close>, which raises \<^verbatim>\<open>KeyError\<close> on a missing
  key.
\<close>

definition tab1 :: "'x artifact \<Rightarrow> session_state \<Rightarrow> error + (string \<times> rat) list option" where
  "tab1 art st =
     (if ss_prediction st \<noteq> None then
        (case ss_input_df st of
           None \<Rightarrow> Inl (KeyError ''input_df'')
         | Some input_df \<Rightarrow>
             (case explain_local art input_df of
                Inl e \<Rightarrow> Inl e
              | Inr chart \<Rightarrow> Inr (Some chart)))
      else Inr None)"

text \<open>
  The second tab (lines 134 and 185 to 200): the ten largest importances of the
  regressor; nothing of the session state is read beyond the presence of
  \<^verbatim>\<open>"prediction"\<close>.
\<close>

definition tab2 :: "'x artifact \<Rightarrow> session_state \<Rightarrow> error + (string \<times> rat) list option" where
  "tab2 art st =
     (if ss_prediction st \<noteq> None then
        (if length (feature_names_out art) = length (feature_importances art) then
           Inr (Some (take 10 (sort_values_desc snd
                  (zip (feature_names_out art) (feature_importances art)))))
         else Inl (ValueError ''All arrays must be of the same length''))
      else Inr None)"

section \<open>The trainer's preprocessor\<close>

text \<open>
  \<^verbatim>\<open>train_model.py\<close>, lines 24 to 29: one transformer named \<^verbatim>\<open>"cat"\<close>, a one-hot encoder
  with \<^verbatim>\<open>handle_unknown="ignore"\<close> on the categorical columns, and
  \<^verbatim>\<open>remainder="passthrough"\<close>.
\<close>

datatype handle_unknown = Raise | Ignore

datatype remainder = Drop | Passthrough

record one_hot_encoder =
  handle_unknown :: handle_unknown

record column_transformer =
  transformers :: "(string \<times> one_hot_encoder \<times> string list) list"
  remainder :: remainder

definition preprocess :: column_transformer where
  "preprocess =
     \<lparr>transformers = [(''cat'', \<lparr>handle_unknown = Ignore\<rparr>, categorical_cols)],
      remainder = Passthrough\<rparr>"

text \<open>
  Modelled from the spec: the encoding itself is the external library's and is not in
  the sources. Section 4.1 of the specification: a level that was not seen at training
  time gets the all-zero encoding when the encoder is configured to ignore unseen
  categories, and raises an error otherwise. A level among the fitted categories gets
  a one at its place.
\<close>

definition one_hot :: "one_hot_encoder \<Rightarrow> val list \<Rightarrow> val \<Rightarrow> error + nat list" where
  "one_hot enc categories v =
     (if v \<in> set categories then Inr (map (\<lambda>c. if c = v then 1 else 0) categories)
      else (case handle_unknown enc of
              Ignore \<Rightarrow> Inr (replicate (length categories) 0)
            | Raise \<Rightarrow> Inl (ValueError ''Found unknown categories'')))"

section \<open>Example data\<close>

text \<open>The example request of the specification.\<close>

definition example_input :: user_input where
  "example_input =
     \<lparr>school = ''GP'', sex = ''F'', age = 17, studytime = 2, failures = 0, absences = 2\<rparr>"

text \<open>
  A small artifact to run the definitions on: the transform keeps the row, the
  regressor computes the float \<^verbatim>\<open>age * 5 / 7\<close>, the explainer gives three attributions of
  which the last is the number of absences.
\<close>

definition example_artifact :: "frame artifact" where
  "example_artifact =
     \<lparr>transform = (\<lambda>df. Inr df),
      regressor_predict =
        (\<lambda>X. case map_of X ''age'' of
                Some (Num a) \<Rightarrow> Inr (to_double (of_int a * 5 / 7))
              | _ \<Rightarrow> Inl (ValueError ''age'')),
      shap_values =
        (\<lambda>X. case map_of X ''absences'' of
                Some (Num n) \<Rightarrow> Inr [1 / 2, - 3, of_int n]
              | _ \<Rightarrow> Inl (ValueError ''absences'')),
      feature_names_out = [''a'', ''b'', ''c''],
      feature_importances = [1 / 5, 1 / 2, 3 / 10]\<rparr>"

text \<open>The six fields of the example request in another order.\<close>

definition shuffled_example :: frame where
  "shuffled_example =
     [(''absences'', Num 2), (''age'', Num 17), (''sex'', Str ''F''),
      (''failures'', Num 0), (''school'', Str ''GP''), (''studytime'', Num 2)]"

text \<open>A grade with at most two digits after the decimal point.\<close>

definition two_decimals :: "rat \<Rightarrow> bool" where
  "two_decimals r = (of_int \<lfloor>r * 100\<rfloor> = r * 100)"

text \<open>A second request, and twelve attributions of which two are left out of the top ten.\<close>

definition other_input :: user_input where
  "other_input =
     \<lparr>school = ''MS'', sex = ''M'', age = 22, studytime = 1, failures = 4, absences = 50\<rparr>"

definition example_names :: "string list" where
  "example_names =
     [''f1'', ''f2'', ''f3'', ''f4'', ''f5'', ''f6'', ''f7'', ''f8'', ''f9'', ''f10'',
      ''f11'', ''f12'']"

definition example_shap :: "rat list" where
  "example_shap = [1, - 9, 2, - 8, 3, - 7, 4, - 6, 5, - 5 / 2, 1 / 4, - 1 / 8]"

text \<open>The session after one prediction request, for each of the two example requests.\<close>

definition session_example :: session_state where
  "session_example = session_after example_artifact [(True, example_input)]"

definition session_other :: session_state where
  "session_other = session_after example_artifact [(True, other_input)]"

section \<open>Facts about the frame operations\<close>

lemma has_column_map_of: "has_column col df \<longleftrightarrow> map_of df col \<noteq> None"
  by (simp add: has_column_def map_of_eq_None_iff)

lemma map_of_setitem: "map_of (setitem col v df) = (map_of df)(col \<mapsto> v)"
  by (induction df) (auto simp: fun_eq_iff)

lemma fill_defaults_map_of:
  assumes "\<forall>c \<in> set cols. map_of df c \<noteq> None \<or> map_of defaults c \<noteq> None"
  shows "\<exists>df'. fill_defaults cols df = Inr df' \<and>
           (\<forall>c. map_of df' c =
                  (if map_of df c \<noteq> None then map_of df c
                   else if c \<in> set cols then map_of defaults c else None))"
  using assms
proof (induction cols arbitrary: df)
  case Nil
  then show ?case by auto
next
  case (Cons col cols)
  show ?case
  proof (cases "map_of df col")
    case None
    with Cons.prems obtain v where v: "map_of defaults col = Some v" by auto
    let ?df = "setitem col v df"
    have "\<forall>c \<in> set cols. map_of ?df c \<noteq> None \<or> map_of defaults c \<noteq> None"
      using Cons.prems by (simp add: map_of_setitem)
    from Cons.IH [OF this] obtain df' where
      r: "fill_defaults cols ?df = Inr df'" and
      m: "\<forall>c. map_of df' c =
                (if map_of ?df c \<noteq> None then map_of ?df c
                 else if c \<in> set cols then map_of defaults c else None)"
      by blast
    have "fill_defaults (col # cols) df = Inr df'"
      using None v r by (simp add: has_column_map_of dict_getitem_def)
    moreover have "map_of df' c =
        (if map_of df c \<noteq> None then map_of df c
         else if c \<in> set (col # cols) then map_of defaults c else None)" for c
      using m [rule_format, of c] None v by (auto simp: map_of_setitem)
    ultimately show ?thesis by blast
  next
    case (Some w)
    have "\<forall>c \<in> set cols. map_of df c \<noteq> None \<or> map_of defaults c \<noteq> None"
      using Cons.prems by simp
    from Cons.IH [OF this] obtain df' where
      r: "fill_defaults cols df = Inr df'" and
      m: "\<forall>c. map_of df' c =
                (if map_of df c \<noteq> None then map_of df c
                 else if c \<in> set cols then map_of defaults c else None)"
      by blast
    have "fill_defaults (col # cols) df = Inr df'"
      using Some r by (simp add: has_column_map_of)
    moreover have "map_of df' c =
        (if map_of df c \<noteq> None then map_of df c
         else if c \<in> set (col # cols) then map_of defaults c else None)" for c
      using m [rule_format, of c] Some by auto
    ultimately show ?thesis by blast
  qed
qed

lemma select_columns_total:
  assumes "\<forall>c \<in> set cols. map_of df c \<noteq> None"
  shows "select_columns cols df = Inr (map (\<lambda>c. (c, the (map_of df c))) cols)"
  using assms by (induction cols) auto

lemma build_feature_row_closed:
  assumes "\<forall>c \<in> set required_cols. map_of df0 c \<noteq> None \<or> map_of defaults c \<noteq> None"
  shows "build_feature_row df0 = Inr (map (\<lambda>c. (c, the (overlay df0 c))) required_cols)"
proof -
  from fill_defaults_map_of [OF assms] obtain df where
    r: "fill_defaults required_cols df0 = Inr df" and
    m: "\<forall>c. map_of df c =
              (if map_of df0 c \<noteq> None then map_of df0 c
               else if c \<in> set required_cols then map_of defaults c else None)"
    by blast
  have ov: "map_of df c = overlay df0 c" if "c \<in> set required_cols" for c
    using m [rule_format, of c] that by (simp add: overlay_def)
  have "\<forall>c \<in> set required_cols. map_of df c \<noteq> None"
    using assms ov by (auto simp: overlay_def)
  then have "select_columns required_cols df =
      Inr (map (\<lambda>c. (c, the (map_of df c))) required_cols)"
    by (rule select_columns_total)
  also have "map (\<lambda>c. (c, the (map_of df c))) required_cols =
      map (\<lambda>c. (c, the (overlay df0 c))) required_cols"
    using ov by simp
  finally show ?thesis using r by (simp add: build_feature_row_def)
qed

lemma defaults_cover:
  "\<forall>c \<in> set required_cols. c \<in> set user_fields \<or> map_of defaults c \<noteq> None"
  by (simp add: required_cols_def user_fields_def defaults_def)

lemma user_frame_covers:
  "\<forall>c \<in> set required_cols. map_of (user_frame u) c \<noteq> None \<or> map_of defaults c \<noteq> None"
proof
  fix c assume "c \<in> set required_cols"
  with defaults_cover have "c \<in> set user_fields \<or> map_of defaults c \<noteq> None" by blast
  moreover have "fst ` set (user_frame u) = set user_fields"
    by (simp add: user_frame_def user_fields_def)
  then have "map_of (user_frame u) c \<noteq> None" if "c \<in> set user_fields"
    using that by (simp add: map_of_eq_None_iff)
  ultimately show "map_of (user_frame u) c \<noteq> None \<or> map_of defaults c \<noteq> None" by blast
qed

lemma feature_row_closed:
  "feature_row u = Inr (map (\<lambda>c. (c, the (overlay (user_frame u) c))) required_cols)"
  unfolding feature_row_def by (rule build_feature_row_closed [OF user_frame_covers])

lemma map_of_row:
  assumes "c \<in> set cols"
  shows "map_of (map (\<lambda>c. (c, f c)) cols) c = Some (f c)"
  using assms by (induction cols) auto

lemma permuted_frame_map_of:
  assumes "mset df0 = mset (user_frame u)"
  shows "map_of df0 = map_of (user_frame u)"
proof -
  have d: "distinct (map fst (user_frame u))"
    by (simp add: user_frame_def)
  have "mset (map fst df0) = mset (map fst (user_frame u))"
    using assms by (metis mset_map)
  then have "distinct (map fst df0)"
    using d by (metis mset_eq_imp_distinct_iff)
  moreover have "set df0 = set (user_frame u)"
    using assms by (rule mset_eq_setD)
  ultimately show ?thesis using d by (simp add: map_of_inject_set)
qed

lemma example_input_valid: "valid_input example_input"
  by (simp add: valid_input_def example_input_def)

lemma overlay_user:
  "overlay (user_frame u) ''school'' = Some (Str (school u))"
  "overlay (user_frame u) ''sex'' = Some (Str (sex u))"
  "overlay (user_frame u) ''age'' = Some (Num (age u))"
  "overlay (user_frame u) ''studytime'' = Some (Num (studytime u))"
  "overlay (user_frame u) ''failures'' = Some (Num (failures u))"
  "overlay (user_frame u) ''absences'' = Some (Num (absences u))"
  by (simp_all add: overlay_def user_frame_def)

lemma overlay_default:
  assumes "c \<notin> set user_fields"
  shows "overlay (user_frame u) c = map_of defaults c"
proof -
  have "fst ` set (user_frame u) = set user_fields"
    by (simp add: user_frame_def user_fields_def)
  then have "map_of (user_frame u) c = None"
    using assms by (simp add: map_of_eq_None_iff)
  then show ?thesis by (simp add: overlay_def)
qed

section \<open>Claims about the feature row\<close>

text \<open>
  Claim C3. Every column of \<open>required_cols\<close> other than the six user fields has an entry
  in \<open>defaults\<close>, so the lookup \<^verbatim>\<open>defaults[col]\<close> of the filling loop never raises;
  building the feature row of any request succeeds, and the row holds a cell for every
  column of \<open>required_cols\<close>.
\<close>

theorem defaults_complete:
  "(\<forall>c \<in> set required_cols. c \<notin> set user_fields \<longrightarrow> (\<exists>v. dict_getitem defaults c = Inr v)) \<and>
   (\<exists>row. feature_row u = Inr row \<and> map fst row = required_cols \<and>
      (\<forall>c \<in> set required_cols. \<exists>v. map_of row c = Some v))"
proof (intro conjI)
  show "\<forall>c \<in> set required_cols. c \<notin> set user_fields \<longrightarrow> (\<exists>v. dict_getitem defaults c = Inr v)"
    using defaults_cover by (auto simp: dict_getitem_def split: option.splits)
  show "\<exists>row. feature_row u = Inr row \<and> map fst row = required_cols \<and>
      (\<forall>c \<in> set required_cols. \<exists>v. map_of row c = Some v)"
    by (simp add: feature_row_closed map_of_row comp_def)
qed

theorem defaults_complete_witness:
  "''address'' \<in> set required_cols \<and> ''address'' \<notin> set user_fields \<and>
   dict_getitem defaults ''address'' = Inr (Str ''U'') \<and>
   (\<exists>row. feature_row example_input = Inr row \<and> (\<exists>v. map_of row ''address'' = Some v))"
proof -
  have m: "''address'' \<in> set required_cols" by (simp add: required_cols_def)
  have n: "''address'' \<notin> set user_fields" by (simp add: user_fields_def)
  have d: "dict_getitem defaults ''address'' = Inr (Str ''U'')"
    by (simp add: dict_getitem_def defaults_def)
  from defaults_complete [of example_input] m
  have "\<exists>row. feature_row example_input = Inr row \<and> (\<exists>v. map_of row ''address'' = Some v)"
    by blast
  with m n d show ?thesis by blast
qed

text \<open>
  Claim C4. Whatever the order in which the six user fields come (any permutation of
  the frame of the request), the completed row exists, its columns are exactly
  \<open>required_cols\<close> in that order, and it is the same row as for the order of the source.
\<close>

theorem column_order:
  assumes "mset df0 = mset (user_frame u)"
  shows "\<exists>row. build_feature_row df0 = Inr row \<and> map fst row = required_cols \<and>
           feature_row u = Inr row"
proof -
  have eq: "map_of df0 = map_of (user_frame u)"
    using assms by (rule permuted_frame_map_of)
  have "\<forall>c \<in> set required_cols. map_of df0 c \<noteq> None \<or> map_of defaults c \<noteq> None"
    using user_frame_covers [of u] by (simp add: eq)
  then have "build_feature_row df0 = Inr (map (\<lambda>c. (c, the (overlay df0 c))) required_cols)"
    by (rule build_feature_row_closed)
  moreover have "overlay df0 = overlay (user_frame u)"
    by (simp add: overlay_def eq fun_eq_iff)
  ultimately show ?thesis
    by (simp add: feature_row_closed comp_def)
qed

theorem column_order_witness:
  "mset shuffled_example = mset (user_frame example_input) \<and>
   shuffled_example \<noteq> user_frame example_input \<and>
   (\<exists>row. build_feature_row shuffled_example = Inr row \<and> map fst row = required_cols \<and>
           feature_row example_input = Inr row)"
proof -
  have p: "mset shuffled_example = mset (user_frame example_input)"
    by (simp add: shuffled_example_def user_frame_def example_input_def)
  have "shuffled_example \<noteq> user_frame example_input"
    by (simp add: shuffled_example_def user_frame_def)
  with p column_order [OF p] show ?thesis by blast
qed

text \<open>
  Claim C8. The completed row holds, for each of the six user fields, the value the user
  supplied (a default never replaces it), and for every other column of
  \<open>required_cols\<close> the value of \<open>defaults\<close>.
\<close>

theorem feature_row_overlay:
  "\<exists>row. feature_row u = Inr row \<and>
     map_of row ''school'' = Some (Str (school u)) \<and>
     map_of row ''sex'' = Some (Str (sex u)) \<and>
     map_of row ''age'' = Some (Num (age u)) \<and>
     map_of row ''studytime'' = Some (Num (studytime u)) \<and>
     map_of row ''failures'' = Some (Num (failures u)) \<and>
     map_of row ''absences'' = Some (Num (absences u)) \<and>
     (\<forall>c \<in> set required_cols. c \<notin> set user_fields \<longrightarrow> map_of row c = map_of defaults c)"
proof -
  let ?row = "map (\<lambda>c. (c, the (overlay (user_frame u) c))) required_cols"
  have cell: "map_of ?row c = Some (the (overlay (user_frame u) c))" if "c \<in> set required_cols" for c
    using that by (rule map_of_row)
  have u: "set user_fields \<subseteq> set required_cols"
    by (simp add: user_fields_def required_cols_def)
  have "map_of ?row c = map_of defaults c"
    if "c \<in> set required_cols" "c \<notin> set user_fields" for c
  proof -
    from defaults_cover that obtain v where "map_of defaults c = Some v" by auto
    then show ?thesis using cell [OF that(1)] overlay_default [OF that(2), of u] by simp
  qed
  moreover have "map_of ?row ''school'' = Some (Str (school u))"
    using cell [of "''school''"] u by (simp add: overlay_user user_fields_def)
  moreover have "map_of ?row ''sex'' = Some (Str (sex u))"
    using cell [of "''sex''"] u by (simp add: overlay_user user_fields_def)
  moreover have "map_of ?row ''age'' = Some (Num (age u))"
    using cell [of "''age''"] u by (simp add: overlay_user user_fields_def)
  moreover have "map_of ?row ''studytime'' = Some (Num (studytime u))"
    using cell [of "''studytime''"] u by (simp add: overlay_user user_fields_def)
  moreover have "map_of ?row ''failures'' = Some (Num (failures u))"
    using cell [of "''failures''"] u by (simp add: overlay_user user_fields_def)
  moreover have "map_of ?row ''absences'' = Some (Num (absences u))"
    using cell [of "''absences''"] u by (simp add: overlay_user user_fields_def)
  ultimately show ?thesis
    unfolding feature_row_closed by blast
qed

theorem feature_row_overlay_witness:
  "''G1'' \<in> set required_cols \<and> ''G1'' \<notin> set user_fields \<and>
   (\<exists>row. feature_row example_input = Inr row \<and>
      map_of row ''school'' = Some (Str ''GP'') \<and>
      map_of row ''absences'' = Some (Num 2) \<and>
      map_of row ''G1'' = Some (Num 10))"
proof -
  have m: "''G1'' \<in> set required_cols" by (simp add: required_cols_def)
  have n: "''G1'' \<notin> set user_fields" by (simp add: user_fields_def)
  have d: "map_of defaults ''G1'' = Some (Num 10)" by (simp add: defaults_def)
  from feature_row_overlay [of example_input] obtain row where
    "feature_row example_input = Inr row"
    "map_of row ''school'' = Some (Str (school example_input))"
    "map_of row ''absences'' = Some (Num (absences example_input))"
    "\<forall>c \<in> set required_cols. c \<notin> set user_fields \<longrightarrow> map_of row c = map_of defaults c"
    by blast
  with m n d have "feature_row example_input = Inr row \<and>
      map_of row ''school'' = Some (Str ''GP'') \<and>
      map_of row ''absences'' = Some (Num 2) \<and>
      map_of row ''G1'' = Some (Num 10)"
    by (simp add: example_input_def)
  with m n show ?thesis by blast
qed

section \<open>Claims about the training schema\<close>

lemma feature_row_columns: "\<exists>row. feature_row u = Inr row \<and> map fst row = required_cols"
  by (simp add: feature_row_closed comp_def)

lemma train_features_no_target: "train_features header = Inr cols \<Longrightarrow> ''G3'' \<notin> set cols"
  by (auto simp: train_features_def split: if_splits)

text \<open>
  Claim C1 says that the columns of the feature row given to the fitted pipeline are, in
  set and order, the feature columns of training, which are the dataset columns with
  the target \<^verbatim>\<open>G3\<close> removed. The code does otherwise: the feature row of every request
  has the column \<^verbatim>\<open>G3\<close> (it is in \<open>required_cols\<close>, with the default 10), and whatever
  the header of the dataset, the trainer's feature columns do not have it, so the two
  column lists are never equal.
\<close>

theorem inference_columns_differ:
  "\<exists>row. feature_row u = Inr row \<and> ''G3'' \<in> set (map fst row) \<and>
         train_features header \<noteq> Inr (map fst row)"
proof -
  obtain row where r: "feature_row u = Inr row" and c: "map fst row = required_cols"
    using feature_row_columns by blast
  have g: "''G3'' \<in> set (map fst row)"
    unfolding c by (simp add: required_cols_def)
  have "train_features header \<noteq> Inr (map fst row)"
    using train_features_no_target [of header "map fst row"] g by blast
  with r g show ?thesis by blast
qed

text \<open>
  Claim C5 as stated, 32 columns of which 17 are categorical and 15 are not, fails on
  \<open>required_cols\<close>.
\<close>

theorem schema_size_counterexample:
  "\<not> (length required_cols = 32 \<and>
      length (filter (\<lambda>c. c \<in> set categorical_cols) required_cols) = 17 \<and>
      length (filter (\<lambda>c. c \<notin> set categorical_cols) required_cols) = 15)"
  by (simp add: required_cols_def)

text \<open>
  Claim C5, amended. \<open>required_cols\<close> has 33 distinct columns: the 17 categorical columns
  of the trainer, in the trainer's order, and 16 numeric or ordinal columns, among them
  \<^verbatim>\<open>G1\<close>, \<^verbatim>\<open>G2\<close> and the target \<^verbatim>\<open>G3\<close>. Without the target, as the trainer drops it from a
  dataset with this header, 32 columns are left.
\<close>

theorem schema_size:
  "length required_cols = 33 \<and> distinct required_cols \<and>
   length (filter (\<lambda>c. c \<in> set categorical_cols) required_cols) = 17 \<and>
   filter (\<lambda>c. c \<in> set categorical_cols) required_cols = categorical_cols \<and>
   length (filter (\<lambda>c. c \<notin> set categorical_cols) required_cols) = 16 \<and>
   filter (\<lambda>c. c \<notin> set categorical_cols) required_cols =
     [''age'', ''Medu'', ''Fedu'', ''traveltime'', ''studytime'', ''failures'', ''famrel'',
      ''freetime'', ''goout'', ''Dalc'', ''Walc'', ''health'', ''absences'',
      ''G1'', ''G2'', ''G3''] \<and>
   train_features required_cols = Inr (butlast required_cols) \<and>
   length (butlast required_cols) = 32"
  by (simp add: required_cols_def categorical_cols_def train_features_def)

section \<open>Facts about rounding\<close>

lemma round_half_even_bounds:
  "x - 1 / 2 \<le> of_int (round_half_even x) \<and> of_int (round_half_even x) \<le> x + 1 / 2"
proof -
  define n where "n = \<lfloor>x\<rfloor>"
  define f where "f = x - of_int n"
  have f: "0 \<le> f" "f < 1" unfolding f_def n_def by linarith+
  have r: "round_half_even x =
      (if f < 1 / 2 then n else if 1 / 2 < f then n + 1 else if even n then n else n + 1)"
    unfolding round_half_even_def Let_def f_def n_def by (rule refl)
  have "round_half_even x = n \<and> f \<le> 1 / 2 \<or> round_half_even x = n + 1 \<and> 1 / 2 \<le> f"
    unfolding r by auto
  then show ?thesis
  proof (elim disjE conjE)
    assume "round_half_even x = n" and h: "f \<le> 1 / 2"
    then have "(of_int (round_half_even x) :: rat) = of_int n" by simp
    with h f show ?thesis unfolding f_def by linarith
  next
    assume "round_half_even x = n + 1" and h: "1 / 2 \<le> f"
    then have "(of_int (round_half_even x) :: rat) = of_int n + 1" by simp
    with h f show ?thesis unfolding f_def by linarith
  qed
qed

lemma round_half_even_of_int [simp]: "round_half_even (of_int n) = n"
  by (simp add: round_half_even_def)

lemma round_half_even_ge:
  assumes "of_int n \<le> x"
  shows "n \<le> round_half_even x"
proof -
  have "(of_int n :: rat) - 1 / 2 \<le> of_int (round_half_even x)"
    using round_half_even_bounds [of x] assms by linarith
  then have "(of_int n :: rat) < of_int (round_half_even x) + 1" by linarith
  then have "(of_int n :: rat) < of_int (round_half_even x + 1)" by simp
  then have "n < round_half_even x + 1" by (simp only: of_int_less_iff)
  then show ?thesis by simp
qed

lemma round_half_even_le:
  assumes "x \<le> of_int n"
  shows "round_half_even x \<le> n"
proof -
  have "of_int (round_half_even x) \<le> (of_int n :: rat) + 1 / 2"
    using round_half_even_bounds [of x] assms by linarith
  then have "(of_int (round_half_even x) :: rat) < of_int n + 1" by linarith
  then have "(of_int (round_half_even x) :: rat) < of_int (n + 1)" by simp
  then have "round_half_even x < n + 1" by (simp only: of_int_less_iff)
  then show ?thesis by simp
qed

lemma binary_exponent_le:
  assumes "q \<noteq> 0"
  shows "power_int 2 (binary_exponent q) \<le> \<bar>q\<bar>"
proof -
  obtain a b where ab: "quotient_of q = (a, b)" by (cases "quotient_of q")
  then have b: "0 < b" by (rule quotient_of_denom_pos)
  have q: "q = of_int a / of_int b" using ab by (rule quotient_of_div)
  with assms have a: "0 < \<bar>a\<bar>" by auto
  define d where "d = bitlen \<bar>a\<bar> - bitlen b"
  have e: "binary_exponent q = (if power_int 2 d \<le> \<bar>q\<bar> then d else d - 1)"
    by (simp add: binary_exponent_def ab d_def Let_def)
  show ?thesis
  proof (cases "power_int 2 d \<le> \<bar>q\<bar>")
    case True
    then show ?thesis by (simp add: e)
  next
    case False
    have la: "1 \<le> bitlen \<bar>a\<bar>" and lb: "1 \<le> bitlen b"
      using a b by (auto simp: bitlen_alt_def)
    have "(2::int) ^ nat (bitlen \<bar>a\<bar> - 1) \<le> \<bar>a\<bar>" using bitlen_bounds [OF a] by simp
    then have "(of_int ((2::int) ^ nat (bitlen \<bar>a\<bar> - 1)) :: rat) \<le> of_int \<bar>a\<bar>"
      by (simp only: of_int_le_iff)
    then have A: "(2::rat) ^ nat (bitlen \<bar>a\<bar> - 1) \<le> of_int \<bar>a\<bar>" by simp
    have "b < (2::int) ^ nat (bitlen b)" using bitlen_bounds [OF b] by simp
    then have "(of_int b :: rat) < of_int ((2::int) ^ nat (bitlen b))"
      by (simp only: of_int_less_iff)
    then have B: "(of_int b :: rat) \<le> 2 ^ nat (bitlen b)" by simp
    have pa: "power_int (2::rat) (bitlen \<bar>a\<bar> - 1) = 2 ^ nat (bitlen \<bar>a\<bar> - 1)"
      using la by (simp add: power_int_def)
    have pb: "power_int (2::rat) (bitlen b) = 2 ^ nat (bitlen b)"
      using lb by (simp add: power_int_def)
    have "d - 1 = (bitlen \<bar>a\<bar> - 1) - bitlen b" by (simp add: d_def)
    moreover have "power_int (2::rat) ((bitlen \<bar>a\<bar> - 1) - bitlen b) =
        power_int 2 (bitlen \<bar>a\<bar> - 1) / power_int 2 (bitlen b)"
      by (rule power_int_diff) simp
    ultimately have "power_int (2::rat) (d - 1) =
        power_int 2 (bitlen \<bar>a\<bar> - 1) / power_int 2 (bitlen b)"
      by (simp only:)
    also have "\<dots> = 2 ^ nat (bitlen \<bar>a\<bar> - 1) / 2 ^ nat (bitlen b)"
      by (simp only: pa pb)
    also have "\<dots> \<le> of_int \<bar>a\<bar> / of_int b"
      using A B b by (intro frac_le) auto
    also have "\<dots> = \<bar>q\<bar>" using b by (simp add: q)
    finally show ?thesis using False by (simp add: e)
  qed
qed















lemma to_double_Finite:
  assumes "to_double q = Finite r" and "q \<noteq> 0"
  shows "r = of_int (round_half_even (q / power_int 2 (max (binary_exponent q) (- 1022) - 52))) *
             power_int 2 (max (binary_exponent q) (- 1022) - 52)"
  using assms by (simp add: to_double_def Let_def split: if_splits)

lemma to_double_error:
  assumes "to_double q = Finite r"
  shows "\<bar>r - q\<bar> \<le> power_int 2 (max (binary_exponent q) (- 1022) - 52) / 2"
proof (cases "q = 0")
  case True
  with assms show ?thesis by (simp add: to_double_def)
next
  case False
  define u :: rat where "u = power_int 2 (max (binary_exponent q) (- 1022) - 52)"
  have u: "0 < u" by (simp add: u_def)
  have r: "r = of_int (round_half_even (q / u)) * u"
    using to_double_Finite [OF assms False] by (simp add: u_def)
  have "q / u - 1 / 2 \<le> of_int (round_half_even (q / u))"
    and "of_int (round_half_even (q / u)) \<le> q / u + 1 / 2"
    using round_half_even_bounds [of "q / u"] by blast+
  then have "(q / u - 1 / 2) * u \<le> r" and "r \<le> (q / u + 1 / 2) * u"
    unfolding r using u by (simp_all only: mult_le_cancel_right_pos)
  then have "q - u / 2 \<le> r" and "r \<le> q + u / 2"
    using u by (simp_all add: algebra_simps)
  then show ?thesis unfolding u_def [symmetric] by linarith
qed

lemma to_double_pos:
  assumes "to_double q = Finite r" and "0 < r"
  shows "0 < q"
proof (rule ccontr)
  assume n: "\<not> 0 < q"
  show False
  proof (cases "q = 0")
    case True
    with assms show False by (simp add: to_double_def)
  next
    case False
    define u :: rat where "u = power_int 2 (max (binary_exponent q) (- 1022) - 52)"
    have u: "0 < u" by (simp add: u_def)
    have r: "r = of_int (round_half_even (q / u)) * u"
      using to_double_Finite [OF assms(1) False] by (simp add: u_def)
    have "q / u \<le> of_int 0" using n u by (simp add: divide_le_0_iff)
    then have "round_half_even (q / u) \<le> 0" by (rule round_half_even_le)
    then have "(of_int (round_half_even (q / u)) :: rat) \<le> 0" by simp
    then have "r \<le> 0" unfolding r using u by (simp add: mult_le_0_iff)
    with assms(2) show False by simp
  qed
qed

lemma to_double_below_20:
  assumes "to_double q = Finite r" and "r < 20"
  shows "q < 20"
proof (rule ccontr)
  assume "\<not> q < 20"
  then have q: "20 \<le> q" by simp
  then have q0: "q \<noteq> 0" by auto
  define e where "e = max (binary_exponent q) (- 1022)"
  define u :: rat where "u = power_int 2 (e - 52)"
  have u: "0 < u" by (simp add: u_def)
  have r: "r = of_int (round_half_even (q / u)) * u"
    using to_double_Finite [OF assms(1) q0] by (simp add: u_def e_def)
  show False
  proof (cases "e \<le> 52")
    case True
    have "1 / u = power_int 2 (- (e - 52))"
      unfolding u_def by (rule power_int_minus_divide [symmetric])
    also have "- (e - 52) = int (nat (52 - e))" using True by simp
    finally have iu: "1 / u = 2 ^ nat (52 - e)" by (simp only: power_int_of_nat)
    have "(of_int (20 * 2 ^ nat (52 - e)) :: rat) = 20 * (1 / u)" by (simp add: iu)
    also have "\<dots> = 20 / u" by simp
    also have "\<dots> \<le> q / u" using q u by (simp add: divide_le_cancel)
    finally have "20 * 2 ^ nat (52 - e) \<le> round_half_even (q / u)"
      by (rule round_half_even_ge)
    then have "(of_int (20 * 2 ^ nat (52 - e)) :: rat) \<le> of_int (round_half_even (q / u))"
      by (simp only: of_int_le_iff)
    then have "(of_int (20 * 2 ^ nat (52 - e)) :: rat) * u \<le> r"
      unfolding r using u by (simp only: mult_le_cancel_right_pos)
    moreover have "(of_int (20 * 2 ^ nat (52 - e)) :: rat) * u = 20"
    proof -
      have "(of_int (20 * 2 ^ nat (52 - e)) :: rat) * u = 20 * ((1 / u) * u)"
        by (simp add: iu)
      then show ?thesis using u by simp
    qed
    ultimately show False using assms(2) by simp
  next
    case False
    then have e: "e = binary_exponent q" "53 \<le> e" by (simp_all add: e_def)
    have "power_int 2 e \<le> \<bar>q\<bar>"
      unfolding e(1) using q0 by (rule binary_exponent_le)
    then have pq: "power_int 2 e \<le> q" using q by simp
    have "power_int (2::rat) 53 \<le> power_int 2 e"
      using e(2) by (intro power_int_increasing) simp_all
    then have big: "2 ^ 53 \<le> q" using pq by simp
    have "u \<le> power_int 2 e"
      unfolding u_def by (intro power_int_increasing) simp_all
    then have uq: "u \<le> q" using pq by simp
    have "q / u - 1 / 2 \<le> of_int (round_half_even (q / u))"
      using round_half_even_bounds [of "q / u"] by blast
    then have "(q / u - 1 / 2) * u \<le> r"
      unfolding r using u by (simp only: mult_le_cancel_right_pos)
    then have "q - u / 2 \<le> r" using u by (simp add: algebra_simps)
    with uq big assms(2) show False by simp
  qed
qed

lemma to_double_close:
  assumes "to_double q = Finite r" and "\<bar>q\<bar> \<le> 20"
  shows "\<bar>r - q\<bar> \<le> 1 / 2 ^ 49"
proof -
  define e where "e = max (binary_exponent q) (- 1022)"
  have "e \<le> 4"
  proof (cases "q = 0")
    case True
    then show ?thesis by (simp add: e_def binary_exponent_def bitlen_alt_def)
  next
    case False
    have "binary_exponent q \<le> 4"
    proof (rule ccontr)
      assume "\<not> binary_exponent q \<le> 4"
      then have "5 \<le> binary_exponent q" by simp
      then have "power_int (2::rat) 5 \<le> power_int 2 (binary_exponent q)"
        by (intro power_int_increasing) simp_all
      also have "\<dots> \<le> \<bar>q\<bar>" using False by (rule binary_exponent_le)
      finally show False using assms(2) by simp
    qed
    then show ?thesis by (simp add: e_def)
  qed
  then have "power_int (2::rat) (e - 52) \<le> power_int 2 (- 48)"
    by (intro power_int_increasing) simp_all
  then have "power_int (2::rat) (e - 52) / 2 \<le> 1 / 2 ^ 49"
    by (simp add: power_int_minus_divide)
  with to_double_error [OF assms(1)] show ?thesis
    unfolding e_def by linarith
qed

lemma to_double_0: "to_double 0 = Finite 0"
  by (simp add: to_double_def)

lemma to_double_20: "to_double 20 = Finite 20"
  by code_simp

lemma round2_two_decimals: "two_decimals (of_int k / 100)"
  by (simp add: two_decimals_def)

text \<open>
  The model gives, for the example request and the example artifact, the double that
  \<^verbatim>\<open>round(17 * 5 / 7, 2)\<close> is: the double closest to 12.14.
\<close>

lemma predict_example:
  "predict example_artifact example_input = Inr (Finite (854276554316841 / 70368744177664))"
  by code_simp

lemma clamp_grade:
  "\<exists>r d. py_max (Finite 0) (py_min (Finite 20) (py_round2 p)) = Finite r \<and>
         0 \<le> r \<and> r \<le> 20 \<and> two_decimals d \<and> 0 \<le> d \<and> d \<le> 20 \<and>
         to_double d = Finite r \<and> \<bar>r - d\<bar> \<le> 1 / 2 ^ 49"
proof -
  let ?g = "py_max (Finite 0) (py_min (Finite 20) (py_round2 p))"
  have z: "two_decimals 0" "two_decimals 20" by (simp_all add: two_decimals_def)
  have lo: "?g = Finite 0 \<Longrightarrow> ?thesis"
    using z(1) to_double_0 by (intro exI [of _ 0]) simp
  have hi: "?g = Finite 20 \<Longrightarrow> ?thesis"
    using z(2) to_double_20 by (intro exI [of _ 20]) simp
  show ?thesis
  proof (cases "py_round2 p")
    case (Finite r)
    then obtain q where p: "p = Finite q" by (cases p) simp_all
    define d :: rat where "d = of_int (round_half_even (q * 100)) / 100"
    have t: "two_decimals d" unfolding d_def by (rule round2_two_decimals)
    have td: "to_double d = Finite r" using Finite p by (simp add: d_def)
    consider "\<not> r < 20" | "r < 20" "0 < r" | "r < 20" "\<not> 0 < r" by blast
    then show ?thesis
    proof cases
      case 1
      then have "?g = Finite 20" unfolding Finite by (simp add: py_max_def py_min_def)
      then show ?thesis by (rule hi)
    next
      case 2
      then have g: "?g = Finite r" unfolding Finite by (simp add: py_max_def py_min_def)
      have d0: "0 < d" using td 2(2) by (rule to_double_pos)
      have d20: "d < 20" using td 2(1) by (rule to_double_below_20)
      have "\<bar>d\<bar> \<le> 20" using d0 d20 by simp
      with td have c: "\<bar>r - d\<bar> \<le> 1 / 2 ^ 49" by (rule to_double_close)
      have "0 \<le> r" "r \<le> 20" "0 \<le> d" "d \<le> 20" using 2 d0 d20 by simp_all
      with g t td c show ?thesis by blast
    next
      case 3
      then have "?g = Finite 0" unfolding Finite by (simp add: py_max_def py_min_def)
      then show ?thesis by (rule lo)
    qed
  next
    case NaN
    then have "?g = Finite 20" by (simp add: py_max_def py_min_def)
    then show ?thesis by (rule hi)
  next
    case PosInf
    then have "?g = Finite 20" by (simp add: py_max_def py_min_def)
    then show ?thesis by (rule hi)
  next
    case NegInf
    then have "?g = Finite 0" by (simp add: py_max_def py_min_def)
    then show ?thesis by (rule lo)
  qed
qed

section \<open>Claims about the prediction\<close>

text \<open>
  Claim C2. For every valid request on which the two library steps of the pipeline return
  (the transform of the feature row and the regressor on its result), \<open>predict\<close> returns
  a finite float \<open>r\<close> between 0 and 20 that is rounded to two decimal places: it is the
  double closest to a decimal \<open>d\<close> with two digits after the point, itself between 0
  and 20, and differs from it by at most \<open>2 ^ (- 49)\<close>. This holds whatever float the
  regressor gave, the special values included.
\<close>

theorem predict_in_range:
  assumes "valid_input u"
    and "feature_row u = Inr input_df"
    and "transform art input_df = Inr X_trans"
    and "regressor_predict art X_trans = Inr p"
  shows "\<exists>r d. predict art u = Inr (Finite r) \<and> 0 \<le> r \<and> r \<le> 20 \<and>
           two_decimals d \<and> 0 \<le> d \<and> d \<le> 20 \<and>
           to_double d = Finite r \<and> \<bar>r - d\<bar> \<le> 1 / 2 ^ 49"
  using assms clamp_grade [of p] by (simp add: predict_def predict_row_def)

theorem predict_in_range_witness:
  "valid_input example_input \<and>
   (\<exists>r d. predict example_artifact example_input = Inr (Finite r) \<and> 0 \<le> r \<and> r \<le> 20 \<and>
           two_decimals d \<and> 0 \<le> d \<and> d \<le> 20 \<and>
           to_double d = Finite r \<and> \<bar>r - d\<bar> \<le> 1 / 2 ^ 49)"
proof -
  let ?row = "map (\<lambda>c. (c, the (overlay (user_frame example_input) c))) required_cols"
  have f: "feature_row example_input = Inr ?row" by (rule feature_row_closed)
  have t: "transform example_artifact ?row = Inr ?row"
    by (simp add: example_artifact_def)
  have "map_of ?row ''age'' = Some (Num 17)"
    by (simp add: required_cols_def overlay_def user_frame_def example_input_def)
  then have p: "regressor_predict example_artifact ?row = Inr (to_double (of_int 17 * 5 / 7))"
    by (simp add: example_artifact_def)
  show ?thesis
    using example_input_valid predict_in_range [OF example_input_valid f t p] by blast
qed

section \<open>Claims about the session state\<close>

lemma rerun_request:
  "rerun art st ev =
     (case request_result art ev of
        None \<Rightarrow> st
      | Some (input_df, p) \<Rightarrow> \<lparr>ss_input_df = Some input_df, ss_prediction = Some p\<rparr>)"
  by (simp add: rerun_def run_prediction_def request_result_def split: sum.splits)

lemma foldl_rerun:
  "foldl (rerun art) st evs =
     (case most_recent art evs of
        None \<Rightarrow> st
      | Some (input_df, p) \<Rightarrow> \<lparr>ss_input_df = Some input_df, ss_prediction = Some p\<rparr>)"
proof (induction evs arbitrary: st)
  case Nil
  then show ?case by simp
next
  case (Cons ev evs)
  have "foldl (rerun art) st (ev # evs) = foldl (rerun art) (rerun art st ev) evs"
    by simp
  also have "\<dots> =
     (case most_recent art evs of
        None \<Rightarrow> rerun art st ev
      | Some (input_df, p) \<Rightarrow> \<lparr>ss_input_df = Some input_df, ss_prediction = Some p\<rparr>)"
    by (rule Cons.IH)
  also have "\<dots> =
     (case most_recent art (ev # evs) of
        None \<Rightarrow> st
      | Some (input_df, p) \<Rightarrow> \<lparr>ss_input_df = Some input_df, ss_prediction = Some p\<rparr>)"
    unfolding rerun_request [of art st ev] by (simp split: option.splits)
  finally show ?case .
qed

lemma request_result_predicts:
  assumes "request_result art ev = Some (input_df, p)"
  shows "feature_row (snd ev) = Inr input_df \<and> predict_row art input_df = Inr p"
  using assms by (auto simp: request_result_def split: if_splits sum.splits)

lemma most_recent_predicts:
  assumes "most_recent art evs = Some (input_df, p)"
  shows "\<exists>ev \<in> set evs. request_result art ev = Some (input_df, p)"
  using assms by (induction evs) (auto split: option.splits)

lemma tab2_ignores_row: "tab2 art (st\<lparr>ss_input_df := input_df\<rparr>) = tab2 art st"
  by (simp add: tab2_def)

text \<open>
  Claim C9 as stated has both explanation views read the retained feature row. The
  second view does not: on the example artifact, the sessions left by the two example
  requests retain different rows and give different first tabs but the same second
  tab, and with the retained row taken away the first tab raises \<^verbatim>\<open>KeyError\<close> while the
  second tab is what it was.
\<close>

theorem views_counterexample:
  "ss_input_df session_example \<noteq> ss_input_df session_other \<and>
   tab1 example_artifact session_example \<noteq> tab1 example_artifact session_other \<and>
   tab2 example_artifact session_example = tab2 example_artifact session_other \<and>
   tab1 example_artifact (session_example\<lparr>ss_input_df := None\<rparr>) =
     Inl (KeyError ''input_df'') \<and>
   tab2 example_artifact (session_example\<lparr>ss_input_df := None\<rparr>) =
     tab2 example_artifact session_example \<and>
   tab2 example_artifact session_example =
     Inr (Some [(''b'', 1 / 2), (''c'', 3 / 10), (''a'', 1 / 5)])"
  by code_simp

text \<open>
  Claim C9, amended. After any sequence of runs of the script from a fresh session, the
  session state holds exactly the feature row and the clamped prediction of the most
  recent prediction request that produced a prediction (and nothing before the first
  one). Such a request replaces both entries whatever the state held before. Whenever
  a prediction is retained, the retained row is the one it was predicted from, and the
  first tab, the local explanation, reads this retained row and explains it. The second
  tab, the global importances, reads no feature row: it is the same whatever row the
  session state holds.
\<close>

theorem session_holds_most_recent:
  "session_after art evs = retained (most_recent art evs) \<and>
   (\<forall>st ev input_df p. request_result art ev = Some (input_df, p) \<longrightarrow>
      rerun art st ev = \<lparr>ss_input_df = Some input_df, ss_prediction = Some p\<rparr>) \<and>
   (\<forall>p. ss_prediction (session_after art evs) = Some p \<longrightarrow>
      (\<exists>input_df. ss_input_df (session_after art evs) = Some input_df \<and>
         predict_row art input_df = Inr p \<and>
         tab1 art (session_after art evs) = map_sum id Some (explain_local art input_df))) \<and>
   (\<forall>st input_df. tab2 art (st\<lparr>ss_input_df := input_df\<rparr>) = tab2 art st)"
proof (intro conjI allI impI)
  show "tab2 art (st\<lparr>ss_input_df := input_df\<rparr>) = tab2 art st" for st input_df
    by (rule tab2_ignores_row)
  show s: "session_after art evs = retained (most_recent art evs)"
    by (simp add: session_after_def foldl_rerun retained_def empty_session_def
        split: option.splits)
  show "rerun art st ev = \<lparr>ss_input_df = Some input_df, ss_prediction = Some p\<rparr>"
    if "request_result art ev = Some (input_df, p)" for st ev input_df p
    using that by (simp add: rerun_request)
  show "\<exists>input_df. ss_input_df (session_after art evs) = Some input_df \<and>
         predict_row art input_df = Inr p \<and>
         tab1 art (session_after art evs) = map_sum id Some (explain_local art input_df)"
    if p: "ss_prediction (session_after art evs) = Some p" for p
  proof (cases "most_recent art evs")
    case None
    with p s show ?thesis by (simp add: retained_def empty_session_def)
  next
    case (Some r)
    obtain input_df q where r: "r = (input_df, q)" by (cases r)
    with Some s have st: "session_after art evs = \<lparr>ss_input_df = Some input_df, ss_prediction = Some q\<rparr>"
      by (simp add: retained_def)
    with p have q: "q = p" by simp
    from most_recent_predicts Some r obtain ev where
      "request_result art ev = Some (input_df, q)" by blast
    then have pr: "predict_row art input_df = Inr p"
      using request_result_predicts q by blast
    have "tab1 art (session_after art evs) = map_sum id Some (explain_local art input_df)"
      unfolding st by (simp add: tab1_def split: sum.splits)
    with st pr show ?thesis by simp
  qed
qed

theorem session_holds_most_recent_witness:
  "request_result example_artifact (True, example_input) \<noteq> None \<and>
   ss_prediction (session_after example_artifact
      [(True, other_input), (True, example_input), (False, other_input)]) =
     Some (Finite (854276554316841 / 70368744177664)) \<and>
   map_of (the (ss_input_df (session_after example_artifact
      [(True, other_input), (True, example_input), (False, other_input)]))) ''age'' =
     Some (Num 17) \<and>
   predict_row example_artifact (the (ss_input_df (session_after example_artifact
      [(True, other_input), (True, example_input), (False, other_input)]))) =
     Inr (Finite (854276554316841 / 70368744177664))"
proof -
  let ?evs = "[(True, other_input), (True, example_input), (False, other_input)]"
  have a: "request_result example_artifact (True, example_input) \<noteq> None"
    by code_simp
  have b: "ss_prediction (session_after example_artifact ?evs) =
      Some (Finite (854276554316841 / 70368744177664))"
    by code_simp
  have c: "map_of (the (ss_input_df (session_after example_artifact ?evs))) ''age'' = Some (Num 17)"
    by code_simp
  from session_holds_most_recent [of example_artifact ?evs] b
  obtain input_df where "ss_input_df (session_after example_artifact ?evs) = Some input_df"
    "predict_row example_artifact input_df = Inr (Finite (854276554316841 / 70368744177664))"
    by blast
  then have "predict_row example_artifact (the (ss_input_df (session_after example_artifact ?evs)))
     = Inr (Finite (854276554316841 / 70368744177664))" by simp
  with a b c show ?thesis by blast
qed

section \<open>Claims about the explanation views\<close>

lemma sort_values_desc_mset: "mset (sort_values_desc key rows) = mset rows"
  by (simp add: sort_values_desc_def)

lemma sort_values_desc_sorted:
  "sorted_wrt (\<lambda>a b. key b \<le> key a) (sort_values_desc key rows)"
proof -
  have "sorted (map key (sort_key key (rev rows)))" by (rule sorted_sort_key)
  then have "sorted_wrt (\<lambda>a b. key a \<le> key b) (sort_key key (rev rows))"
    by (simp add: sorted_map)
  then show ?thesis
    by (simp add: sort_values_desc_def sorted_wrt_rev)
qed

lemma shap_df_rows:
  assumes "length feature_names = length sv"
  shows "\<exists>df. shap_df feature_names sv = Inr df \<and> bars df = zip feature_names sv \<and>
           (\<forall>r \<in> set df. Impact r = \<bar>SHAP_Value r\<bar>)"
  using assms by (auto simp: shap_df_def bars_def comp_def split_def)

lemma top_shap_example:
  "map_sum id bars (top_shap example_names example_shap) =
     Inr [(''f2'', - 9), (''f4'', - 8), (''f6'', - 7), (''f8'', - 6), (''f9'', 5),
          (''f7'', 4), (''f5'', 3), (''f10'', - 5 / 2), (''f3'', 2), (''f1'', 1)]"
  by code_simp

text \<open>
  Claim C10. The rows of the local view are chosen by the magnitude of the attribution,
  not by its sign: \<open>top_shap\<close> returns the first ten rows (all of them when there are
  fewer) in descending order of the absolute SHAP value, every row left out has an
  absolute value no larger than that of any row chosen, and the bars drawn are rows of
  \<open>shap_df\<close> with their signed values: the chosen and the remaining bars together are
  exactly the pairs of a feature name and its signed SHAP value. In
  \<open>top_shap_example\<close> the four largest bars are negative.
\<close>

theorem top_shap_by_magnitude:
  assumes "length feature_names = length sv"
  shows "\<exists>top rest. top_shap feature_names sv = Inr top \<and>
           length top = min 10 (length sv) \<and>
           mset (bars top) + mset (bars rest) = mset (zip feature_names sv) \<and>
           sorted_wrt (\<lambda>a b. \<bar>SHAP_Value b\<bar> \<le> \<bar>SHAP_Value a\<bar>) top \<and>
           (\<forall>r \<in> set top. \<forall>r' \<in> set rest. \<bar>SHAP_Value r'\<bar> \<le> \<bar>SHAP_Value r\<bar>)"
proof -
  from shap_df_rows [OF assms] obtain df where
    df: "shap_df feature_names sv = Inr df" and
    b: "bars df = zip feature_names sv" and
    i: "\<forall>r \<in> set df. Impact r = \<bar>SHAP_Value r\<bar>"
    by blast
  let ?s = "sort_values_desc Impact df"
  let ?top = "take 10 ?s" and ?rest = "drop 10 ?s"
  have m: "mset ?s = mset df" by (rule sort_values_desc_mset)
  then have set_s: "set ?s = set df" by (rule mset_eq_setD)
  have len: "length ?s = length sv"
  proof -
    have "length ?s = length df" using m by (rule mset_eq_length)
    also have "\<dots> = length (bars df)" by (simp add: bars_def)
    also have "\<dots> = length sv" using assms by (simp add: b)
    finally show ?thesis .
  qed
  have "sorted_wrt (\<lambda>a b. Impact b \<le> Impact a) ?s" by (rule sort_values_desc_sorted)
  then have "sorted_wrt (\<lambda>a b. \<bar>SHAP_Value b\<bar> \<le> \<bar>SHAP_Value a\<bar>) ?s"
    by (rule sorted_wrt_mono_rel [rotated]) (use i set_s in auto)
  then have "sorted_wrt (\<lambda>a b. \<bar>SHAP_Value b\<bar> \<le> \<bar>SHAP_Value a\<bar>) (?top @ ?rest)"
    by simp
  then have s1: "sorted_wrt (\<lambda>a b. \<bar>SHAP_Value b\<bar> \<le> \<bar>SHAP_Value a\<bar>) ?top"
    and s2: "\<forall>r \<in> set ?top. \<forall>r' \<in> set ?rest. \<bar>SHAP_Value r'\<bar> \<le> \<bar>SHAP_Value r\<bar>"
    unfolding sorted_wrt_append by blast+
  have "bars ?top @ bars ?rest = bars (?top @ ?rest)"
    unfolding bars_def by (rule map_append [symmetric])
  also have "\<dots> = bars ?s" by simp
  finally have "mset (bars ?top) + mset (bars ?rest) = mset (bars ?s)"
    by (metis mset_append)
  also have "\<dots> = image_mset (\<lambda>r. (Feature r, SHAP_Value r)) (mset ?s)"
    unfolding bars_def by (rule mset_map)
  also have "\<dots> = image_mset (\<lambda>r. (Feature r, SHAP_Value r)) (mset df)"
    by (simp only: m)
  also have "\<dots> = mset (bars df)"
    unfolding bars_def by (rule mset_map [symmetric])
  finally have ms: "mset (bars ?top) + mset (bars ?rest) = mset (zip feature_names sv)"
    by (simp add: b)
  have t: "top_shap feature_names sv = Inr ?top"
    by (simp add: top_shap_def df)
  have l: "length ?top = min 10 (length sv)"
    by (simp add: len min.commute)
  from t l ms s1 s2 show ?thesis by blast
qed

theorem top_shap_by_magnitude_witness:
  "length example_names = length example_shap \<and>
   (\<exists>top rest. top_shap example_names example_shap = Inr top \<and>
           length top = 10 \<and>
           mset (bars top) + mset (bars rest) = mset (zip example_names example_shap) \<and>
           sorted_wrt (\<lambda>a b. \<bar>SHAP_Value b\<bar> \<le> \<bar>SHAP_Value a\<bar>) top \<and>
           (\<forall>r \<in> set top. \<forall>r' \<in> set rest. \<bar>SHAP_Value r'\<bar> \<le> \<bar>SHAP_Value r\<bar>))"
proof -
  have h: "length example_names = length example_shap"
    by (simp add: example_names_def example_shap_def)
  have "min 10 (length example_shap) = 10"
    by (simp add: example_shap_def)
  with h top_shap_by_magnitude [OF h] show ?thesis by simp
qed

section \<open>Claims about the trainer's preprocessor\<close>

text \<open>
  Claim C7. The only transformer of the trainer's preprocessor is the one-hot encoder on
  the categorical columns, and it is configured to ignore unseen categories; so for any
  fitted categories and any level that is not among them the encoding is all zeros and
  no error is raised.
\<close>

theorem unknown_category_ignored:
  "\<forall>(name, enc, cols) \<in> set (transformers preprocess).
      handle_unknown enc = Ignore \<and> cols = categorical_cols \<and>
      (\<forall>categories v. v \<notin> set categories \<longrightarrow>
         one_hot enc categories v = Inr (replicate (length categories) 0))"
  by (simp add: preprocess_def one_hot_def)

theorem unknown_category_ignored_witness:
  "(''cat'', \<lparr>handle_unknown = Ignore\<rparr>, categorical_cols) \<in> set (transformers preprocess) \<and>
   Str ''XX'' \<notin> set [Str ''GP'', Str ''MS''] \<and>
   one_hot \<lparr>handle_unknown = Ignore\<rparr> [Str ''GP'', Str ''MS''] (Str ''XX'') = Inr [0, 0] \<and>
   one_hot \<lparr>handle_unknown = Ignore\<rparr> [Str ''GP'', Str ''MS''] (Str ''MS'') = Inr [0, 1]"
proof -
  have m: "(''cat'', \<lparr>handle_unknown = Ignore\<rparr>, categorical_cols) \<in> set (transformers preprocess)"
    by (simp add: preprocess_def)
  have n: "Str ''XX'' \<notin> set [Str ''GP'', Str ''MS'']" by simp
  from unknown_category_ignored m
  have "\<forall>categories v. v \<notin> set categories \<longrightarrow>
         one_hot \<lparr>handle_unknown = Ignore\<rparr> categories v = Inr (replicate (length categories) 0)"
    by blast
  with n have "one_hot \<lparr>handle_unknown = Ignore\<rparr> [Str ''GP'', Str ''MS''] (Str ''XX'') =
      Inr (replicate (length [Str ''GP'', Str ''MS'']) 0)"
    by blast
  moreover have "one_hot \<lparr>handle_unknown = Ignore\<rparr> [Str ''GP'', Str ''MS''] (Str ''MS'') = Inr [0, 1]"
    by (simp add: one_hot_def)
  ultimately show ?thesis using m n by (simp add: numeral_2_eq_2)
qed

end
